theory Spec2Isabelle
  imports Complex_Main "HOL-Library.AList" "HOL-Library.Sublist"
begin

section \<open>Python values and exceptions used by the note reviewer\<close>

text \<open>
  The exceptions that the code of \<^verbatim>\<open>note_reviewer.py\<close> can raise, as values.
  \<open>JSONDecodeError\<close> is raised by \<^verbatim>\<open>json.load\<close>, \<open>SchemaError\<close> by
  \<^verbatim>\<open>difficulty_schema.validate\<close>, \<open>ValueError\<close> by \<^verbatim>\<open>int(answer)\<close>,
  \<open>EOFError\<close> by \<^verbatim>\<open>input\<close> at the end of standard input,
  \<open>KeyError\<close> and \<open>TypeError\<close> by subscripting and membership tests, and
  \<open>EngineError\<close> stands for whatever the scheduling library raises. \<open>Not_modelled\<close> is
  no exception of the program: the decoder of the model answers it where the value that
  \<^verbatim>\<open>json.load\<close> returns has a string with a code point beyond 255, which a \<open>string\<close>
  cannot hold.
\<close>

datatype error =
    ValueError | SchemaError | KeyError | TypeError | EOFError
  | JSONDecodeError | EngineError | Not_modelled

text \<open>
  The values \<^verbatim>\<open>json.load\<close> produces and \<^verbatim>\<open>json.dump\<close> accepts. A Python
  \<^verbatim>\<open>dict\<close> keeps insertion order, so an object is an association list. A finite float
  is represented by the rational number it denotes.
\<close>

datatype pyfloat = Finite rat | PosInf | NegInf | NaN

datatype json =
    JNull
  | JBool bool
  | JInt int
  | JFloat pyfloat
  | JStr string
  | JArr "json list"
  | JObj "(string \<times> json) list"

text \<open>\<^verbatim>\<open>key in obj\<close> for a string key.\<close>

fun py_contains :: "json \<Rightarrow> string \<Rightarrow> error + bool" where
  "py_contains (JObj kvs) k = Inr (k \<in> fst ` set kvs)"
| "py_contains (JArr xs) k = Inr (JStr k \<in> set xs)"
| "py_contains (JStr s) k = Inr (sublist k s)"
| "py_contains _ k = Inl TypeError"

text \<open>\<^verbatim>\<open>obj[key]\<close> for a string key.\<close>

fun py_getitem :: "json \<Rightarrow> string \<Rightarrow> error + json" where
  "py_getitem (JObj kvs) k = (case map_of kvs k of None \<Rightarrow> Inl KeyError | Some v \<Rightarrow> Inr v)"
| "py_getitem _ k = Inl TypeError"

text \<open>
  \<^verbatim>\<open>obj[key] = value\<close> for a string key: a dict replaces the value of a key it has,
  in place, and appends a key it has not.
\<close>

fun py_setitem :: "json \<Rightarrow> string \<Rightarrow> json \<Rightarrow> error + json" where
  "py_setitem (JObj kvs) k v = Inr (JObj (AList.update k v kvs))"
| "py_setitem _ k v = Inl TypeError"

section \<open>The scheduling library and the environment\<close>

text \<open>
  The \<^verbatim>\<open>fsrs\<close> package is an external collaborator: its cards and review logs are
  opaque, and what the reviewer calls is taken as a record of functions. \<^verbatim>\<open>Card()\<close> and
  \<^verbatim>\<open>review_card\<close> consult the clock, so they take the number \<open>t\<close> of the point at which
  the program consults it (see below). \<open>due_timestamp c\<close> is \<^verbatim>\<open>c.due.timestamp()\<close>.
\<close>

record ('card, 'rlog) engine =
  new_card :: "nat \<Rightarrow> 'card"
  card_from_dict :: "json \<Rightarrow> error + 'card"
  card_to_dict :: "'card \<Rightarrow> json"
  rlog_from_dict :: "json \<Rightarrow> error + 'rlog"
  rlog_to_dict :: "'rlog \<Rightarrow> json"
  review_card :: "'card \<Rightarrow> int \<Rightarrow> nat \<Rightarrow> error + ('card \<times> 'rlog)"
  due_timestamp :: "'card \<Rightarrow> rat"

text \<open>
  The clock, the \<^verbatim>\<open>json\<close> codec and the directory walk. The points at which the program
  consults the clock are numbered: each \<^verbatim>\<open>datetime.datetime.now()\<close> of the selection loop
  is one, and each call of \<^verbatim>\<open>update_review_log\<close> is one. \<open>now_timestamp t\<close> is the value
  of \<^verbatim>\<open>datetime.datetime.now().timestamp()\<close> at point \<open>t\<close>, and \<open>today t\<close> the value of
  \<^verbatim>\<open>datetime.date.today().strftime("%Y-%m-%d")\<close> there.
  \<open>json_dumps v\<close> is the text \<^verbatim>\<open>json.dump(v, f, indent=4)\<close> writes and
  \<open>json_loads\<close> is \<^verbatim>\<open>json.load\<close> on the text of a file. \<open>os_walk p\<close> is the list of
  \<open>(root, dirs, files)\<close> triples \<^verbatim>\<open>os.walk(p)\<close> yields.
\<close>

record env =
  now_timestamp :: "nat \<Rightarrow> rat"
  today :: "nat \<Rightarrow> string"
  json_dumps :: "json \<Rightarrow> string"
  json_loads :: "string \<Rightarrow> error + json"
  expanduser :: "string \<Rightarrow> string"
  os_walk :: "string \<Rightarrow> (string \<times> string list \<times> string list) list"

section \<open>update_review_log\<close>

text \<open>
  The body of \<^verbatim>\<open>NoteReviewer.update_review_log\<close> on the in-memory log, at point \<open>t\<close> of
  the clock. \<open>load_card\<close> is the \<^verbatim>\<open>if note in self.review_log\<close> statement: for a note
  with a record both the card and the review log are rebuilt (the review log only for the
  exception it may raise). An exception leaves the log as it was, so the result is either
  the error or the new log.
\<close>

definition load_card ::
  "('card, 'rlog) engine \<Rightarrow> nat \<Rightarrow> json \<Rightarrow> string \<Rightarrow> error + 'card" where
  "load_card E t st note =
     (case py_contains st note of
        Inl e \<Rightarrow> Inl e
      | Inr False \<Rightarrow> Inr (new_card E t)
      | Inr True \<Rightarrow>
          (case py_getitem st note of
             Inl e \<Rightarrow> Inl e
           | Inr card_data \<Rightarrow>
               (case py_getitem card_data ''card'' of
                  Inl e \<Rightarrow> Inl e
                | Inr cd \<Rightarrow>
                    (case card_from_dict E cd of
                       Inl e \<Rightarrow> Inl e
                     | Inr c \<Rightarrow>
                         (case py_getitem card_data ''review_log'' of
                            Inl e \<Rightarrow> Inl e
                          | Inr rd \<Rightarrow>
                              (case rlog_from_dict E rd of
                                 Inl e \<Rightarrow> Inl e
                               | Inr _ \<Rightarrow> Inr c))))))"

definition update_review_log ::
  "('card, 'rlog) engine \<Rightarrow> env \<Rightarrow> nat \<Rightarrow> json \<Rightarrow> string \<Rightarrow> int \<Rightarrow> error + json" where
  "update_review_log E V t st note rating =
     (let today_s = today V t in
      case load_card E t st note of
        Inl e \<Rightarrow> Inl e
      | Inr c \<Rightarrow>
          (case review_card E c rating t of
             Inl e \<Rightarrow> Inl e
           | Inr (c', rl') \<Rightarrow>
               py_setitem st note
                 (JObj [(''last_reviewed'', JStr today_s),
                        (''card'', card_to_dict E c'),
                        (''review_log'', rlog_to_dict E rl')])))"

section \<open>select_notes_for_review\<close>

text \<open>The fields of a \<^verbatim>\<open>NoteReviewer\<close>; \<^verbatim>\<open>self.fsrs\<close> is the engine.\<close>

record reviewer =
  notes_path :: string
  review_log_file :: string
  review_log :: json

definition endswith :: "string \<Rightarrow> string \<Rightarrow> bool" where
  "endswith s suf = suffix suf s"

text \<open>\<^verbatim>\<open>os.path.join(a, b)\<close> of \<^verbatim>\<open>posixpath\<close>, for two components.\<close>

definition os_path_join :: "string \<Rightarrow> string \<Rightarrow> string" where
  "os_path_join a b =
     (if prefix ''/'' b then b
      else if a = [] \<or> endswith a ''/'' then a @ b
      else a @ ''/'' @ b)"

text \<open>The list comprehension that collects the \<^verbatim>\<open>.md\<close> files of the walk.\<close>

definition list_notes :: "(string \<times> string list \<times> string list) list \<Rightarrow> string list" where
  "list_notes walk =
     concat (map (\<lambda>(root, dirs, files).
                    map (os_path_join root) (filter (\<lambda>file. endswith file ''.md'') files))
                 walk)"

text \<open>
  The loop over \<open>notes\<close> that fills \<open>notes_due\<close> (the accumulator). The clock is read once
  for every note that has a record, after its card has been rebuilt; \<open>t\<close> counts the
  readings.
\<close>

fun notes_due_loop ::
  "('card, 'rlog) engine \<Rightarrow> env \<Rightarrow> json \<Rightarrow> nat \<Rightarrow> string list \<Rightarrow> string list
     \<Rightarrow> error + (string list \<times> nat)" where
  "notes_due_loop E V st t [] notes_due = Inr (notes_due, t)"
| "notes_due_loop E V st t (note # notes) notes_due =
     (case py_contains st note of
        Inl e \<Rightarrow> Inl e
      | Inr False \<Rightarrow> notes_due_loop E V st t notes (notes_due @ [note])
      | Inr True \<Rightarrow>
          (case py_getitem st note of
             Inl e \<Rightarrow> Inl e
           | Inr card_data \<Rightarrow>
               (case py_getitem card_data ''card'' of
                  Inl e \<Rightarrow> Inl e
                | Inr cd \<Rightarrow>
                    (case card_from_dict E cd of
                       Inl e \<Rightarrow> Inl e
                     | Inr c \<Rightarrow>
                         if due_timestamp E c \<le> now_timestamp V t
                         then notes_due_loop E V st (Suc t) notes (notes_due @ [note])
                         else notes_due_loop E V st (Suc t) notes notes_due))))"

text \<open>The slice \<^verbatim>\<open>xs[:q]\<close>: a negative \<open>q\<close> counts from the end.\<close>

definition py_slice_to :: "'a list \<Rightarrow> int \<Rightarrow> 'a list" where
  "py_slice_to xs q =
     (if 0 \<le> q then take (nat q) xs else take (length xs - nat (- q)) xs)"

definition select_notes_for_review ::
  "('card, 'rlog) engine \<Rightarrow> env \<Rightarrow> reviewer \<Rightarrow> nat \<Rightarrow> int \<Rightarrow> error + (string list \<times> nat)" where
  "select_notes_for_review E V self t q =
     (let notes = list_notes (os_walk V (notes_path self)) in
      case notes_due_loop E V (review_log self) t notes [] of
        Inl e \<Rightarrow> Inl e
      | Inr (notes_due, t') \<Rightarrow> Inr (py_slice_to notes_due q, t'))"

subsection \<open>Due selection as the specification words it\<close>

text \<open>
  A note is due at a clock reading if the log has no record for it, or if the card of its
  record has \<open>due \<le> now\<close>.
\<close>

definition due_spec :: "('card, 'rlog) engine \<Rightarrow> env \<Rightarrow> json \<Rightarrow> string \<times> nat \<Rightarrow> bool" where
  "due_spec E V st = (\<lambda>(note, t).
     py_contains st note = Inr False \<or>
     (\<exists>card_data cd c. py_getitem st note = Inr card_data
        \<and> py_getitem card_data ''card'' = Inr cd
        \<and> card_from_dict E cd = Inr c
        \<and> due_timestamp E c \<le> now_timestamp V t))"

text \<open>The clock reading at which each note of the catalog is examined.\<close>

fun read_ticks :: "json \<Rightarrow> nat \<Rightarrow> string list \<Rightarrow> nat list" where
  "read_ticks st t [] = []"
| "read_ticks st t (note # notes) =
     t # read_ticks st (if py_contains st note = Inr True then Suc t else t) notes"

section \<open>The review session\<close>

subsection \<open>Reading the difficulty\<close>

text \<open>
  \<^verbatim>\<open>int(answer)\<close> for a string of code points below 256: white space is stripped on both
  sides, a sign may follow, and the rest must be decimal digits, where single underscores
  may separate digits. (CPython also refuses more than 4300 digits, with the same
  \<open>ValueError\<close>, unless the limit is lifted; the model has no limit.)
\<close>

definition py_isspace :: "char \<Rightarrow> bool" where
  "py_isspace c = (of_char c \<in> {9, 10, 11, 12, 13, 28, 29, 30, 31, 32, 133, 160 :: nat})"

definition py_strip :: "string \<Rightarrow> string" where
  "py_strip s = rev (dropWhile py_isspace (rev (dropWhile py_isspace s)))"

definition is_digit :: "char \<Rightarrow> bool" where
  "is_digit c = (48 \<le> (of_char c :: nat) \<and> (of_char c :: nat) \<le> 57)"

fun digits_ok :: "string \<Rightarrow> bool" where
  "digits_ok [] = False"
| "digits_ok [c] = is_digit c"
| "digits_ok (c # d # cs) =
     (is_digit c \<and> (if d = CHR ''_'' then digits_ok cs else digits_ok (d # cs)))"

definition digits_value :: "string \<Rightarrow> int" where
  "digits_value s =
     foldl (\<lambda>acc c. if c = CHR ''_'' then acc else 10 * acc + (of_char c - 48)) 0 s"

definition py_int :: "string \<Rightarrow> error + int" where
  "py_int s =
     (let body = py_strip s in
      case body of
        [] \<Rightarrow> Inl ValueError
      | c # cs \<Rightarrow>
          if c = CHR ''+'' then (if digits_ok cs then Inr (digits_value cs) else Inl ValueError)
          else if c = CHR ''-'' then
            (if digits_ok cs then Inr (- digits_value cs) else Inl ValueError)
          else if digits_ok body then Inr (digits_value body)
          else Inl ValueError)"

text \<open>
  \<^verbatim>\<open>difficulty_schema.validate(n)\<close> on an integer \<open>n\<close>: \<^verbatim>\<open>Use(int)\<close> leaves it as it is,
  and the range test raises \<open>SchemaError\<close>.
\<close>

definition difficulty_schema_validate :: "int \<Rightarrow> error + int" where
  "difficulty_schema_validate n = (if 1 \<le> n \<and> n \<le> 4 then Inr n else Inl SchemaError)"

text \<open>What the session prints, asks and does, in order.\<close>

datatype event =
    Review_header string
  | Prompt_done
  | Prompt_difficulty
  | Retry_message
  | Updated string int
  | Saved

text \<open>
  The \<^verbatim>\<open>while True\<close> loop of \<^verbatim>\<open>review_notes\<close> for one note, on the lines still to be
  read from standard input and the events so far. Every round reads two lines, so the loop
  ends when the input does, with the \<open>EOFError\<close> of \<^verbatim>\<open>input\<close>. The result is the
  exception that leaves the loop, or \<open>None\<close> for the answer \<^verbatim>\<open>q\<close>, or the accepted
  difficulty. Only \<open>SchemaError\<close> is caught.
\<close>

fun rating_loop ::
  "string \<Rightarrow> string list \<Rightarrow> event list \<Rightarrow> (error + int option) \<times> string list \<times> event list"
where
  "rating_loop note [] tr = (Inl EOFError, [], tr @ [Review_header note, Prompt_done])"
| "rating_loop note [l] tr =
     (Inl EOFError, [], tr @ [Review_header note, Prompt_done, Prompt_difficulty])"
| "rating_loop note (l # answer # ins) tr =
     (let tr' = tr @ [Review_header note, Prompt_done, Prompt_difficulty] in
      if answer = ''q'' then (Inr None, ins, tr')
      else
        case py_int answer of
          Inl e \<Rightarrow> (Inl e, ins, tr')
        | Inr n \<Rightarrow>
            (case difficulty_schema_validate n of
               Inl e \<Rightarrow>
                 if e = SchemaError then rating_loop note ins (tr' @ [Retry_message])
                 else (Inl e, ins, tr')
             | Inr difficulty \<Rightarrow> (Inr (Some difficulty), ins, tr')))"

subsection \<open>The session\<close>

text \<open>
  The world outside the reviewer: the text files by path, the lines still to be read from
  standard input, the number of the next point of the clock, and the events so far.
\<close>

record world =
  files :: "string \<rightharpoonup> string"
  stdin :: "string list"
  clock :: nat
  trace :: "event list"

text \<open>
  \<^verbatim>\<open>NoteReviewer.__init__\<close>: the path of the log, and the log itself, which is read when
  its file exists and is the empty dict otherwise; an exception of \<^verbatim>\<open>json.load\<close> leaves
  the constructor.
\<close>

definition log_file_path :: "env \<Rightarrow> string \<Rightarrow> string option \<Rightarrow> string" where
  "log_file_path V notes_path_arg review_log_file_arg =
     (case review_log_file_arg of
        None \<Rightarrow> os_path_join (expanduser V notes_path_arg) ''review_log.json''
      | Some f \<Rightarrow> expanduser V f)"

definition init ::
  "env \<Rightarrow> string \<Rightarrow> string option \<Rightarrow> world \<Rightarrow> error + reviewer" where
  "init V notes_path_arg review_log_file_arg w =
     (let np = expanduser V notes_path_arg;
          rf = log_file_path V notes_path_arg review_log_file_arg
      in case files w rf of
           Some text \<Rightarrow>
             (case json_loads V text of
                Inl e \<Rightarrow> Inl e
              | Inr j \<Rightarrow> Inr \<lparr> notes_path = np, review_log_file = rf, review_log = j \<rparr>)
         | None \<Rightarrow> Inr \<lparr> notes_path = np, review_log_file = rf, review_log = JObj [] \<rparr>)"

text \<open>
  \<^verbatim>\<open>open(path, "w")\<close> creates the file or empties it, and what is written then is
  appended to it.
\<close>

definition open_w :: "string \<Rightarrow> (string \<rightharpoonup> string) \<Rightarrow> (string \<rightharpoonup> string)" where
  "open_w path fs = fs(path \<mapsto> [])"

definition write_text ::
  "string \<Rightarrow> string \<Rightarrow> (string \<rightharpoonup> string) \<Rightarrow> (string \<rightharpoonup> string)" where
  "write_text path s fs = fs(path \<mapsto> (case fs path of None \<Rightarrow> s | Some old \<Rightarrow> old @ s))"

text \<open>
  \<^verbatim>\<open>save_review_log\<close> run to its end: the file of the log is opened for writing and the
  text of the whole log is written into it.
\<close>

definition save_review_log :: "env \<Rightarrow> reviewer \<Rightarrow> world \<Rightarrow> world" where
  "save_review_log V self w =
     w \<lparr> files := write_text (review_log_file self) (json_dumps V (review_log self))
                     (open_w (review_log_file self) (files w)),
         trace := trace w @ [Saved] \<rparr>"

text \<open>
  \<^verbatim>\<open>save_review_log\<close> when the process is stopped while it runs, after the file has been
  opened and the first \<open>k\<close> characters of the text have reached it (the writes are
  buffered, so the text reaches the file in pieces).
\<close>

definition save_review_log_interrupted :: "env \<Rightarrow> reviewer \<Rightarrow> nat \<Rightarrow> world \<Rightarrow> world" where
  "save_review_log_interrupted V self k w =
     w \<lparr> files := write_text (review_log_file self)
                     (take k (json_dumps V (review_log self)))
                     (open_w (review_log_file self) (files w)) \<rparr>"

text \<open>
  The \<^verbatim>\<open>for note in notes_for_review\<close> loop. The result is the exception that ends the
  session, or \<open>None\<close> when \<^verbatim>\<open>review_notes\<close> returns.
\<close>

fun review_loop ::
  "('card, 'rlog) engine \<Rightarrow> env \<Rightarrow> string list \<Rightarrow> reviewer \<times> world
     \<Rightarrow> error option \<times> reviewer \<times> world" where
  "review_loop E V [] (self, w) = (None, self, w)"
| "review_loop E V (note # ns) (self, w) =
     (case rating_loop note (stdin w) (trace w) of
        (Inl e, ins, tr) \<Rightarrow> (Some e, self, w \<lparr> stdin := ins, trace := tr \<rparr>)
      | (Inr None, ins, tr) \<Rightarrow> (None, self, w \<lparr> stdin := ins, trace := tr \<rparr>)
      | (Inr (Some difficulty), ins, tr) \<Rightarrow>
          (let rating = 5 - difficulty;
               w1 = w \<lparr> stdin := ins, clock := Suc (clock w), trace := tr \<rparr>
           in case update_review_log E V (clock w) (review_log self) note rating of
                Inl e \<Rightarrow> (Some e, self, w1)
              | Inr st' \<Rightarrow>
                  (let self' = self \<lparr> review_log := st' \<rparr>;
                       w2 = save_review_log V self'
                              (w1 \<lparr> trace := trace w1 @ [Updated note rating] \<rparr>)
                   in review_loop E V ns (self', w2))))"

definition review_notes ::
  "('card, 'rlog) engine \<Rightarrow> env \<Rightarrow> reviewer \<times> world \<Rightarrow> error option \<times> reviewer \<times> world"
where
  "review_notes E V = (\<lambda>(self, w).
     case select_notes_for_review E V self (clock w) 5 of
       Inl e \<Rightarrow> (Some e, self, w)
     | Inr (notes_for_review, t') \<Rightarrow>
         review_loop E V notes_for_review (self, w \<lparr> clock := t' \<rparr>))"

text \<open>
  \<^verbatim>\<open>ReviewCLI.run\<close>: build the reviewer, then review. The result is the exception that
  ends the run, if any, and the world it leaves.
\<close>

definition run ::
  "('card, 'rlog) engine \<Rightarrow> env \<Rightarrow> string \<Rightarrow> string option \<Rightarrow> world
     \<Rightarrow> error option \<times> world" where
  "run E V notes_path_arg review_log_file_arg w =
     (case init V notes_path_arg review_log_file_arg w of
        Inl e \<Rightarrow> (Some e, w)
      | Inr self \<Rightarrow>
          (case review_notes E V (self, w) of (r, self', w') \<Rightarrow> (r, w')))"

subsection \<open>Vocabulary for statements about a session\<close>

text \<open>
  \<open>apply_updates\<close> applies \<^verbatim>\<open>update_review_log\<close> to a list of notes and ratings, one
  after the other, from point \<open>t\<close> of the clock. \<open>well_saved\<close> holds of a sequence of
  events in which every update of the log is followed at once by a save, and nothing else
  is saved.
\<close>

fun apply_updates ::
  "('card, 'rlog) engine \<Rightarrow> env \<Rightarrow> nat \<Rightarrow> json \<Rightarrow> (string \<times> int) list \<Rightarrow> error + json" where
  "apply_updates E V t st [] = Inr st"
| "apply_updates E V t st ((note, rating) # xs) =
     (case update_review_log E V t st note rating of
        Inl e \<Rightarrow> Inl e
      | Inr st' \<Rightarrow> apply_updates E V (Suc t) st' xs)"

fun is_store_event :: "event \<Rightarrow> bool" where
  "is_store_event (Updated n r) = True"
| "is_store_event Saved = True"
| "is_store_event _ = False"

fun well_saved :: "event list \<Rightarrow> bool" where
  "well_saved [] = True"
| "well_saved (Updated n r # Saved # es) = well_saved es"
| "well_saved (Updated n r # es) = False"
| "well_saved (Saved # es) = False"
| "well_saved (e # es) = well_saved es"

section \<open>A small scheduling library and environment for running the model\<close>

text \<open>
  A stand-in for the external library: a card is its due time in seconds, reviewing moves
  the due time \<open>rating\<close> days after the clock reading and fails on a rating outside
  \<open>1..4\<close>; the review log is the rating.
\<close>

definition demo_engine :: "(int, int) engine" where
  "demo_engine =
     \<lparr> new_card = (\<lambda>t. int t),
       card_from_dict = (\<lambda>j. case j of JInt d \<Rightarrow> Inr d | _ \<Rightarrow> Inl EngineError),
       card_to_dict = JInt,
       rlog_from_dict = (\<lambda>j. case j of JInt r \<Rightarrow> Inr r | _ \<Rightarrow> Inl EngineError),
       rlog_to_dict = JInt,
       review_card = (\<lambda>c r t. if 1 \<le> r \<and> r \<le> 4 then Inr (int t + 86400 * r, r)
                               else Inl EngineError),
       due_timestamp = rat_of_int \<rparr>"

definition demo_env :: env where
  "demo_env =
     \<lparr> now_timestamp = (\<lambda>t. rat_of_nat t),
       today = (\<lambda>t. ''2024-01-01''),
       json_dumps = (\<lambda>j. if j = JObj [] then ''{}'' else ''{...}''),
       json_loads = (\<lambda>s. if s = ''{}'' then Inr (JObj []) else Inl JSONDecodeError),
       expanduser = (\<lambda>p. p),
       os_walk = (\<lambda>p. [(p, [], [''a.md'', ''todo.txt'', ''b.md''])]) \<rparr>"

definition demo_reviewer :: "json \<Rightarrow> reviewer" where
  "demo_reviewer st =
     \<lparr> notes_path = ''notes'', review_log_file = ''notes/review_log.json'', review_log = st \<rparr>"

definition demo_world :: "string list \<Rightarrow> world" where
  "demo_world ins = \<lparr> files = Map.empty, stdin = ins, clock = 0, trace = [] \<rparr>"

section \<open>Properties of update_review_log\<close>

lemma update_review_log_shape:
  assumes "update_review_log E V t st note rating = Inr st'"
  shows "\<exists>kvs cd rd. st = JObj kvs
           \<and> st' = JObj (AList.update note
                   (JObj [(''last_reviewed'', JStr (today V t)), (''card'', cd),
                          (''review_log'', rd)]) kvs)"
  using assms
  by (cases st)
     (auto simp: update_review_log_def load_card_def Let_def
           split: sum.splits bool.splits prod.splits)

text \<open>
  Claim C10. When \<^verbatim>\<open>update_review_log(note, rating)\<close> returns, the log is a dict that maps
  \<open>note\<close> to a new record dated today (inserted if \<open>note\<close> had none, replaced otherwise), and the record of every other note
  identity is the one it had; when it raises, the log is untouched (the model returns no
  new log).
\<close>

theorem update_review_log_frame:
  assumes "update_review_log E V t st note rating = Inr st'"
  shows "(\<exists>cd rd. py_getitem st' note =
            Inr (JObj [(''last_reviewed'', JStr (today V t)), (''card'', cd),
                       (''review_log'', rd)]))
       \<and> py_contains st' note = Inr True
       \<and> (\<forall>m. m \<noteq> note \<longrightarrow>
             py_contains st' m = py_contains st m \<and> py_getitem st' m = py_getitem st m)"
proof -
  from update_review_log_shape [OF assms]
  obtain kvs cd rd where l: "st = JObj kvs"
    and l': "st' = JObj (AList.update note
                   (JObj [(''last_reviewed'', JStr (today V t)), (''card'', cd),
                          (''review_log'', rd)]) kvs)"
    by blast
  show ?thesis
    unfolding l l' by (auto simp: update_conv' dom_update)
qed

theorem update_review_log_frame_witness:
  "update_review_log demo_engine demo_env 0 (JObj [(''b.md'', JInt 7)]) ''a.md'' 3
     = Inr (JObj [(''b.md'', JInt 7),
                  (''a.md'', JObj [(''last_reviewed'', JStr ''2024-01-01''),
                                   (''card'', JInt 259200), (''review_log'', JInt 3)])])
   \<and> py_getitem (JObj [(''b.md'', JInt 7),
                  (''a.md'', JObj [(''last_reviewed'', JStr ''2024-01-01''),
                                   (''card'', JInt 259200), (''review_log'', JInt 3)])]) ''b.md''
     = py_getitem (JObj [(''b.md'', JInt 7)]) ''b.md''"
proof -
  have run: "update_review_log demo_engine demo_env 0 (JObj [(''b.md'', JInt 7)]) ''a.md'' 3
     = Inr (JObj [(''b.md'', JInt 7),
                  (''a.md'', JObj [(''last_reviewed'', JStr ''2024-01-01''),
                                   (''card'', JInt 259200), (''review_log'', JInt 3)])])"
    by (simp add: update_review_log_def load_card_def demo_engine_def demo_env_def)
  from update_review_log_frame [OF run] show ?thesis
    using run by simp
qed

section \<open>Properties of due selection\<close>

lemma length_read_ticks [simp]: "length (read_ticks st t ns) = length ns"
  by (induction ns arbitrary: t) auto

lemma due_spec_new: "py_contains st n = Inr False \<Longrightarrow> due_spec E V st (n, t)"
  by (simp add: due_spec_def)

lemma due_spec_rec:
  "py_contains st n = Inr True \<Longrightarrow> py_getitem st n = Inr card_data \<Longrightarrow>
   py_getitem card_data ''card'' = Inr cd \<Longrightarrow> card_from_dict E cd = Inr c \<Longrightarrow>
   due_spec E V st (n, t) \<longleftrightarrow> due_timestamp E c \<le> now_timestamp V t"
  by (simp add: due_spec_def)

lemma notes_due_loop_filter:
  "notes_due_loop E V st t ns acc = Inr (due, t') \<Longrightarrow>
     due = acc @ map fst (filter (due_spec E V st) (zip ns (read_ticks st t ns)))"
proof (induction ns arbitrary: t acc)
  case Nil
  then show ?case by simp
next
  case (Cons n ns)
  show ?case
  proof (cases "py_contains st n")
    case (Inl e)
    with Cons.prems show ?thesis by simp
  next
    case (Inr b)
    show ?thesis
    proof (cases b)
      case False
      with Inr Cons.prems have "notes_due_loop E V st t ns (acc @ [n]) = Inr (due, t')"
        by simp
      from Cons.IH [OF this] Inr False show ?thesis
        by (simp add: due_spec_new)
    next
      case True
      with Inr Cons.prems obtain card_data cd c where
        r: "py_getitem st n = Inr card_data" "py_getitem card_data ''card'' = Inr cd"
           "card_from_dict E cd = Inr c"
        by (auto split: sum.splits)
      note ds = due_spec_rec [OF _ r, of V t]
      show ?thesis
      proof (cases "due_timestamp E c \<le> now_timestamp V t")
        case le: True
        with Inr True r Cons.prems
        have "notes_due_loop E V st (Suc t) ns (acc @ [n]) = Inr (due, t')" by simp
        from Cons.IH [OF this] Inr True le ds show ?thesis by simp
      next
        case gt: False
        with Inr True r Cons.prems
        have "notes_due_loop E V st (Suc t) ns acc = Inr (due, t')" by simp
        from Cons.IH [OF this] Inr True gt ds show ?thesis by simp
      qed
    qed
  qed
qed

lemma demo_list_notes:
  "list_notes [(''notes'', [], [''a.md'', ''todo.txt'', ''b.md''])]
     = [''notes/a.md'', ''notes/b.md'']"
  by (simp add: list_notes_def os_path_join_def endswith_def suffix_to_prefix)

lemma demo_catalog:
  "list_notes (os_walk demo_env ''notes'') = [''notes/a.md'', ''notes/b.md'']"
  by (simp add: demo_env_def demo_list_notes)

lemma select_as_filter:
  assumes "select_notes_for_review E V self t q = Inr (sel, t')"
  shows "sel = py_slice_to
           (map fst (filter (due_spec E V (review_log self))
              (zip (list_notes (os_walk V (notes_path self)))
                   (read_ticks (review_log self) t (list_notes (os_walk V (notes_path self)))))))
           q"
  using assms notes_due_loop_filter [of E V "review_log self" t
      "list_notes (os_walk V (notes_path self))" "[]"]
  by (auto simp: select_notes_for_review_def Let_def split: sum.splits)

lemma notes_due_loop_new:
  "notes_due_loop E V st t ns acc = Inr (due, t') \<Longrightarrow> n \<in> set ns \<Longrightarrow>
   py_contains st n = Inr False \<Longrightarrow> n \<in> set due"
proof -
  assume run: "notes_due_loop E V st t ns acc = Inr (due, t')"
    and mem: "n \<in> set ns" and new: "py_contains st n = Inr False"
  from mem obtain i where i: "i < length ns" "ns ! i = n"
    by (auto simp: in_set_conv_nth)
  then have "(n, read_ticks st t ns ! i) \<in> set (zip ns (read_ticks st t ns))"
    by (auto simp: in_set_zip)
  moreover have "due_spec E V st (n, read_ticks st t ns ! i)"
    using new by (rule due_spec_new)
  ultimately have "n \<in> fst ` set (filter (due_spec E V st) (zip ns (read_ticks st t ns)))"
    by force
  with notes_due_loop_filter [OF run] show ?thesis by simp
qed

text \<open>
  Claim C5, as amended. When due selection returns, every note of the catalog that has no
  record in the log is in the list of due notes, and it is in the returned list whenever
  its position in the list of due notes is below the limit \<open>q\<close>; the slice
  \<^verbatim>\<open>notes_due[:q]\<close> drops the due notes from position \<open>q\<close> on.
\<close>

theorem select_new_notes:
  assumes "select_notes_for_review E V self t q = Inr (sel, t')"
    and "note \<in> set (list_notes (os_walk V (notes_path self)))"
    and "py_contains (review_log self) note = Inr False"
  shows "\<exists>due. notes_due_loop E V (review_log self) t
                 (list_notes (os_walk V (notes_path self))) [] = Inr (due, t')
             \<and> sel = py_slice_to due q
             \<and> note \<in> set due
             \<and> (\<forall>i < length due. due ! i = note \<and> int i < q \<longrightarrow> note \<in> set sel)"
proof -
  from assms(1) obtain due where
    run: "notes_due_loop E V (review_log self) t
            (list_notes (os_walk V (notes_path self))) [] = Inr (due, t')"
    and sel: "sel = py_slice_to due q"
    by (auto simp: select_notes_for_review_def Let_def split: sum.splits)
  have mem: "note \<in> set due"
    using notes_due_loop_new [OF run assms(2,3)] .
  have "note \<in> set sel" if "i < length due" "due ! i = note" "int i < q" for i
  proof -
    from that have "i < nat q" "0 \<le> q" by auto
    with that(1,2) have "take (nat q) due ! i = note" "i < length (take (nat q) due)"
      by auto
    then have "note \<in> set (take (nat q) due)"
      by (metis nth_mem)
    with \<open>0 \<le> q\<close> sel show ?thesis by (simp add: py_slice_to_def)
  qed
  with run sel mem show ?thesis by blast
qed

theorem select_new_notes_witness:
  "select_notes_for_review demo_engine demo_env (demo_reviewer (JObj [])) 0 5
       = Inr ([''notes/a.md'', ''notes/b.md''], 0)
   \<and> ''notes/b.md'' \<in> set [''notes/a.md'', ''notes/b.md'']"
proof -
  have run: "select_notes_for_review demo_engine demo_env (demo_reviewer (JObj [])) 0 5
       = Inr ([''notes/a.md'', ''notes/b.md''], 0)"
    by (simp add: demo_catalog select_notes_for_review_def demo_reviewer_def py_slice_to_def)
  have mem: "''notes/b.md'' \<in> set (list_notes (os_walk demo_env (notes_path (demo_reviewer (JObj [])))))"
    by (simp add: demo_catalog demo_reviewer_def)
  have new: "py_contains (review_log (demo_reviewer (JObj []))) ''notes/b.md'' = Inr False"
    by (simp add: demo_reviewer_def)
  from select_new_notes [OF run mem new] show ?thesis
    using run by simp
qed

text \<open>
  The claim as written, for every limit, fails: with two new notes and the limit \<open>1\<close>
  the second new note is not returned.
\<close>

theorem select_new_notes_limit_counterexample:
  "''notes/b.md'' \<in> set (list_notes (os_walk demo_env ''notes''))
   \<and> py_contains (review_log (demo_reviewer (JObj []))) ''notes/b.md'' = Inr False
   \<and> select_notes_for_review demo_engine demo_env (demo_reviewer (JObj [])) 0 1
       = Inr ([''notes/a.md''], 0)
   \<and> ''notes/b.md'' \<notin> set [''notes/a.md'']"
  by (simp add: demo_catalog select_notes_for_review_def demo_reviewer_def py_slice_to_def)



text \<open>
  Claim C7. For a limit \<open>q \<ge> 0\<close>, the list that due selection returns has at most \<open>q\<close>
  elements and is the first \<open>q\<close> elements of the catalog's due notes, in the order of the
  catalog, each note judged at the clock reading at which the loop examines it.
\<close>

theorem select_limit:
  assumes "select_notes_for_review E V self t q = Inr (sel, t')" and "0 \<le> q"
  shows "length sel \<le> nat q
       \<and> sel = take (nat q)
           (map fst (filter (due_spec E V (review_log self))
              (zip (list_notes (os_walk V (notes_path self)))
                   (read_ticks (review_log self) t (list_notes (os_walk V (notes_path self)))))))"
  using select_as_filter [OF assms(1)] assms(2) by (simp add: py_slice_to_def)

theorem select_limit_witness:
  "select_notes_for_review demo_engine demo_env (demo_reviewer (JObj [])) 0 1
       = Inr ([''notes/a.md''], 0)
   \<and> (0::int) \<le> 1 \<and> length [''notes/a.md''] \<le> nat 1"
proof -
  have run: "select_notes_for_review demo_engine demo_env (demo_reviewer (JObj [])) 0 1
       = Inr ([''notes/a.md''], 0)"
    by (simp add: demo_catalog select_notes_for_review_def demo_reviewer_def py_slice_to_def)
  from select_limit [OF run] show ?thesis
    using run by simp
qed

section \<open>Properties of the review session\<close>

lemma write_after_open [simp]: "write_text path s (open_w path fs) = fs(path \<mapsto> s)"
  by (simp add: write_text_def open_w_def)

lemma save_review_log_eq:
  "save_review_log V self w =
     w \<lparr> files := (files w)(review_log_file self \<mapsto> json_dumps V (review_log self)),
         trace := trace w @ [Saved] \<rparr>"
  by (simp add: save_review_log_def)

lemma py_int_q: "py_int ''q'' = Inl ValueError"
  by (simp add: py_int_def py_strip_def py_isspace_def is_digit_def)

lemma rating_loop_valid:
  "py_int a = Inr d \<Longrightarrow> 1 \<le> d \<Longrightarrow> d \<le> 4 \<Longrightarrow>
   rating_loop note (l # a # ins) tr
     = (Inr (Some d), ins, tr @ [Review_header note, Prompt_done, Prompt_difficulty])"
proof -
  assume a: "py_int a = Inr d" and d: "1 \<le> d" "d \<le> 4"
  from a py_int_q have "a \<noteq> ''q''" by (metis sum.distinct(1))
  with a d show ?thesis
    by (simp add: difficulty_schema_validate_def del: list.inject)
qed

lemma rating_loop_quit:
  "rating_loop note (l # ''q'' # ins) tr
     = (Inr None, ins, tr @ [Review_header note, Prompt_done, Prompt_difficulty])"
  by simp

lemma rating_loop_out_of_range:
  "py_int a = Inr n \<Longrightarrow> n < 1 \<or> 4 < n \<Longrightarrow>
   rating_loop note (l # a # ins) tr
     = rating_loop note ins
         (tr @ [Review_header note, Prompt_done, Prompt_difficulty, Retry_message])"
proof -
  assume a: "py_int a = Inr n" and n: "n < 1 \<or> 4 < n"
  from a py_int_q have "a \<noteq> ''q''" by (metis sum.distinct(1))
  with a n show ?thesis
    by (auto simp add: difficulty_schema_validate_def simp del: list.inject)
qed

lemma rating_loop_not_int:
  "py_int a = Inl e \<Longrightarrow> a \<noteq> ''q'' \<Longrightarrow>
   rating_loop note (l # a # ins) tr
     = (Inl e, ins, tr @ [Review_header note, Prompt_done, Prompt_difficulty])"
  by simp

lemma no_store_well_saved:
  "filter is_store_event p = [] \<Longrightarrow> well_saved (p @ es) = well_saved es"
proof (induction p)
  case Nil
  then show ?case by simp
next
  case (Cons e p)
  then show ?case by (cases e) (auto split: if_splits)
qed

lemma rating_loop_trace:
  "rating_loop nt ins tr = (x, ins', tr') \<Longrightarrow>
   \<exists>evs. tr' = tr @ evs \<and> filter is_store_event evs = []"
proof (induction nt ins tr rule: rating_loop.induct)
  case (1 nt tr)
  then show ?case by auto
next
  case (2 nt l tr)
  then show ?case by auto
next
  case (3 nt l answer ins tr)
  show ?case
  proof (cases "answer = ''q''")
    case True
    with 3 show ?thesis by auto
  next
    case nq: False
    show ?thesis
    proof (cases "py_int answer")
      case (Inl e)
      with 3 nq show ?thesis by auto
    next
      case (Inr n)
      show ?thesis
      proof (cases "1 \<le> n \<and> n \<le> 4")
        case True
        with 3 nq Inr show ?thesis by (auto simp: difficulty_schema_validate_def)
      next
        case False
        then have v: "difficulty_schema_validate n = Inl SchemaError"
          by (auto simp: difficulty_schema_validate_def)
        with 3(2) nq Inr have
          "rating_loop nt ins
             ((tr @ [Review_header nt, Prompt_done, Prompt_difficulty]) @ [Retry_message])
           = (x, ins', tr')"
          by simp
        from 3(1) [OF refl nq Inr v refl this]
        obtain evs where "tr' = ((tr @ [Review_header nt, Prompt_done, Prompt_difficulty])
              @ [Retry_message]) @ evs" "filter is_store_event evs = []"
          by blast
        then show ?thesis by auto
      qed
    qed
  qed
qed

lemma review_loop_inv:
  "review_loop E V queue (self, w) = (r, self', w') \<Longrightarrow>
   \<exists>ratings evs. length ratings \<le> length queue
     \<and> apply_updates E V (clock w) (review_log self) (zip queue ratings)
         = Inr (review_log self')
     \<and> review_log_file self' = review_log_file self
     \<and> trace w' = trace w @ evs \<and> well_saved evs
     \<and> filter is_store_event evs
         = concat (map (\<lambda>(n, r). [Updated n r, Saved]) (zip queue ratings))
     \<and> files w' = (if ratings = [] then files w
                   else (files w)(review_log_file self \<mapsto> json_dumps V (review_log self')))"
proof (induction queue arbitrary: self w)
  case Nil
  then show ?case
    by (intro exI [of _ "[]"]) simp
next
  case (Cons n queue)
  obtain x ins tr where rl: "rating_loop n (stdin w) (trace w) = (x, ins, tr)"
    by (cases "rating_loop n (stdin w) (trace w)") auto
  from rating_loop_trace [OF rl] obtain evs0 where
    tr: "tr = trace w @ evs0" and ns: "filter is_store_event evs0 = []"
    by blast
  have ws0: "well_saved evs0"
    using no_store_well_saved [OF ns, of "[]"] by simp
  have stop: ?case
    if "self' = self" "files w' = files w" "trace w' = tr"
  proof -
    show ?thesis
      apply (rule exI [of _ "[]"])
      apply (rule exI [of _ evs0])
      using that tr ns ws0 by simp
  qed
  show ?case
  proof (cases x)
    case (Inl e)
    with rl Cons.prems show ?thesis by (intro stop) auto
  next
    case (Inr od)
    show ?thesis
    proof (cases od)
      case None
      with Inr rl Cons.prems show ?thesis by (intro stop) auto
    next
      case (Some d)
      show ?thesis
      proof (cases "update_review_log E V (clock w) (review_log self) n (5 - d)")
        case (Inl e)
        with Some Inr rl Cons.prems show ?thesis by (intro stop) (auto simp: Let_def)
      next
        case upd: (Inr st')
        let ?self1 = "self \<lparr> review_log := st' \<rparr>"
        let ?w2 = "save_review_log V ?self1
                     (w \<lparr> stdin := ins, clock := Suc (clock w),
                          trace := tr @ [Updated n (5 - d)] \<rparr>)"
        from upd Some Inr rl Cons.prems
        have "review_loop E V queue (?self1, ?w2) = (r, self', w')"
          by (simp add: Let_def)
        from Cons.IH [OF this] obtain ratings evs where
          len: "length ratings \<le> length queue"
          and app: "apply_updates E V (clock ?w2) (review_log ?self1) (zip queue ratings)
                     = Inr (review_log self')"
          and rf: "review_log_file self' = review_log_file ?self1"
          and tr': "trace w' = trace ?w2 @ evs" and ws: "well_saved evs"
          and flt: "filter is_store_event evs
                     = concat (map (\<lambda>(n, r). [Updated n r, Saved]) (zip queue ratings))"
          and fl: "files w' = (if ratings = [] then files ?w2
                   else (files ?w2)(review_log_file ?self1 \<mapsto> json_dumps V (review_log self')))"
          by blast
        have end0: "ratings = [] \<Longrightarrow> review_log self' = st'"
          using app by simp
        have w2: "clock ?w2 = Suc (clock w)" "trace ?w2 = trace w @ evs0 @ [Updated n (5 - d), Saved]"
          "files ?w2 = (files w)(review_log_file self \<mapsto> json_dumps V st')"
          by (simp_all add: save_review_log_eq tr)
        have wsall: "well_saved (evs0 @ [Updated n (5 - d), Saved] @ evs)"
          using no_store_well_saved [OF ns] ws by simp
        show ?thesis
          apply (rule exI [of _ "(5 - d) # ratings"])
          apply (rule exI [of _ "evs0 @ [Updated n (5 - d), Saved] @ evs"])
          using len app rf tr' flt fl end0 w2 wsall upd ns
          by (auto simp: save_review_log_eq)
      qed
    qed
  qed
qed

lemma review_loop_rated:
  "\<forall>(l, a, d) \<in> set rated. py_int a = Inr d \<and> 1 \<le> d \<and> d \<le> 4 \<Longrightarrow>
   length rated \<le> length queue \<Longrightarrow>
   stdin w = concat (map (\<lambda>(l, a, d). [l, a]) rated) @ rest \<Longrightarrow>
   apply_updates E V (clock w) (review_log self)
      (zip queue (map (\<lambda>(l, a, d). 5 - d) rated)) = Inr stN \<Longrightarrow>
   review_loop E V queue (self, w)
     = review_loop E V (drop (length rated) queue)
         (self \<lparr> review_log := stN \<rparr>,
          w \<lparr> files := (if rated = [] then files w
                        else (files w)(review_log_file self \<mapsto> json_dumps V stN)),
              stdin := rest,
              clock := clock w + length rated,
              trace := trace w @ concat (map (\<lambda>(n, l, a, d).
                          [Review_header n, Prompt_done, Prompt_difficulty,
                           Updated n (5 - d), Saved]) (zip queue rated)) \<rparr>)"
proof (induction rated arbitrary: queue self w)
  case Nil
  then have e: "self \<lparr> review_log := stN \<rparr> = self" "w \<lparr> stdin := rest \<rparr> = w"
    by simp_all
  have "review_loop E V queue (self \<lparr> review_log := stN \<rparr>, w \<lparr> stdin := rest \<rparr>)
          = review_loop E V queue (self, w)"
    by (simp only: e)
  then show ?case by simp
next
  case (Cons x rated)
  obtain l a d where x: "x = (l, a, d)" by (cases x) auto
  from Cons.prems(2) obtain n q' where queue: "queue = n # q'"
    by (cases queue) auto
  from Cons.prems(1) x have a: "py_int a = Inr d" "1 \<le> d" "d \<le> 4" by auto
  let ?ins = "concat (map (\<lambda>(l, a, d). [l, a]) rated) @ rest"
  from Cons.prems(3) x have ins: "stdin w = l # a # ?ins" by simp
  from Cons.prems(4) x queue obtain st1 where
    upd: "update_review_log E V (clock w) (review_log self) n (5 - d) = Inr st1"
    and app: "apply_updates E V (Suc (clock w)) st1
                (zip q' (map (\<lambda>(l, a, d). 5 - d) rated)) = Inr stN"
    by (auto split: sum.splits)
  let ?self1 = "self \<lparr> review_log := st1 \<rparr>"
  let ?w2 = "save_review_log V ?self1
               (w \<lparr> stdin := ?ins, clock := Suc (clock w),
                    trace := (trace w @ [Review_header n, Prompt_done, Prompt_difficulty])
                             @ [Updated n (5 - d)] \<rparr>)"
  have step: "review_loop E V queue (self, w) = review_loop E V q' (?self1, ?w2)"
    unfolding queue
    by (simp add: ins rating_loop_valid [OF a] upd Let_def del: rating_loop.simps)
  have ih: "review_loop E V q' (?self1, ?w2)
     = review_loop E V (drop (length rated) q')
         (?self1 \<lparr> review_log := stN \<rparr>,
          ?w2 \<lparr> files := (if rated = [] then files ?w2
                        else (files ?w2)(review_log_file ?self1 \<mapsto> json_dumps V stN)),
              stdin := rest,
              clock := clock ?w2 + length rated,
              trace := trace ?w2 @ concat (map (\<lambda>(n, l, a, d).
                          [Review_header n, Prompt_done, Prompt_difficulty,
                           Updated n (5 - d), Saved]) (zip q' rated)) \<rparr>)"
  proof (rule Cons.IH)
    show "\<forall>(l, a, d) \<in> set rated. py_int a = Inr d \<and> 1 \<le> d \<and> d \<le> 4"
      using Cons.prems(1) by simp
    show "length rated \<le> length q'" using Cons.prems(2) queue by simp
    show "stdin ?w2 = ?ins" by (simp add: save_review_log_eq)
    show "apply_updates E V (clock ?w2) (review_log ?self1)
            (zip q' (map (\<lambda>(l, a, d). 5 - d) rated)) = Inr stN"
      using app by (simp add: save_review_log_eq)
  qed
  have last: "rated = [] \<Longrightarrow> stN = st1" using app by simp
  have fu: "(\<lambda>p. if p = k then Some v else f p) = f(k \<mapsto> v)" for k :: string and v :: string and f
    by auto
  show ?case
    unfolding step ih
    by (cases "rated = []") (simp_all add: x queue save_review_log_eq last fu)
qed

lemma demo_init:
  "init demo_env ''notes'' None (demo_world ins) = Inr (demo_reviewer (JObj []))"
  by (simp add: init_def log_file_path_def demo_env_def demo_world_def demo_reviewer_def os_path_join_def
        endswith_def suffix_to_prefix)

lemma demo_world_sel:
  "files (demo_world ins) = Map.empty" "stdin (demo_world ins) = ins"
  "clock (demo_world ins) = 0" "trace (demo_world ins) = []"
  by (simp_all add: demo_world_def)

lemma demo_select_empty:
  "select_notes_for_review demo_engine demo_env (demo_reviewer (JObj [])) 0 5
     = Inr ([''notes/a.md'', ''notes/b.md''], 0)"
  by (simp add: demo_catalog select_notes_for_review_def demo_reviewer_def py_slice_to_def)

lemma py_int_abc: "py_int ''abc'' = Inl ValueError"
  by (simp add: py_int_def py_strip_def py_isspace_def is_digit_def)

lemma py_int_1: "py_int ''1'' = Inr 1"
  by (simp add: py_int_def py_strip_def py_isspace_def is_digit_def digits_value_def)

text \<open>
  Claim C1, at the answer \<^verbatim>\<open>abc\<close>. The notes \<^verbatim>\<open>a.md\<close> and \<^verbatim>\<open>b.md\<close> are new, and the
  user answers \<^verbatim>\<open>abc\<close> to the first question about the difficulty and would answer
  \<^verbatim>\<open>2\<close> to the second. \<^verbatim>\<open>int("abc")\<close> raises \<open>ValueError\<close>, which the handler
  for \<open>SchemaError\<close> does not catch: the run ends with the exception after the first
  question, without a second question and with the valid answer unread.
\<close>

theorem non_integer_answer_ends_session:
  "run demo_engine demo_env ''notes'' None (demo_world ['''', ''abc'', '''', ''2''])
     = (Some ValueError,
        \<lparr> files = Map.empty, stdin = ['''', ''2''], clock = 0,
          trace = [Review_header ''notes/a.md'', Prompt_done, Prompt_difficulty] \<rparr>)"
  by (simp add: run_def demo_init review_notes_def demo_world_sel demo_select_empty
        py_int_abc)





section \<open>Properties of loading and saving the log\<close>

lemma init_no_file:
  "files w (log_file_path V np rf) = None \<Longrightarrow>
   init V np rf w = Inr \<lparr> notes_path = expanduser V np,
                          review_log_file = log_file_path V np rf,
                          review_log = JObj [] \<rparr>"
  by (simp add: init_def)

lemma init_parse_failure:
  "files w (log_file_path V np rf) = Some text \<Longrightarrow> json_loads V text = Inl e \<Longrightarrow>
   init V np rf w = Inl e"
  by (simp add: init_def)

lemma demo_log_file_path:
  "log_file_path demo_env ''notes'' None = ''notes/review_log.json''"
  by (simp add: log_file_path_def demo_env_def os_path_join_def endswith_def
        suffix_to_prefix)

text \<open>
  Claim C8. When the file of the log does not exist, the reviewer starts with the empty
  dict. When it exists and \<^verbatim>\<open>json.load\<close> raises on its text, the constructor raises
  that exception (the \<open>JSONDecodeError\<close> of the decoder is the error the specification
  calls StoreCorruptError), and the run ends with it and leaves the world as it was:
  nothing is asked, and no file is written, the unreadable one included.
\<close>

theorem load_review_log:
  "(files w (log_file_path V np rf) = None \<longrightarrow>
      init V np rf w = Inr \<lparr> notes_path = expanduser V np,
                             review_log_file = log_file_path V np rf,
                             review_log = JObj [] \<rparr>)
   \<and> (files w (log_file_path V np rf) = Some text \<and> json_loads V text = Inl e \<longrightarrow>
        init V np rf w = Inl e \<and> run E V np rf w = (Some e, w))"
  by (simp add: init_no_file init_parse_failure run_def)

theorem load_review_log_witness:
  "init demo_env ''notes'' None (demo_world [''''])
     = Inr \<lparr> notes_path = ''notes'', review_log_file = ''notes/review_log.json'',
             review_log = JObj [] \<rparr>
   \<and> json_loads demo_env ''{'' = Inl JSONDecodeError
   \<and> run demo_engine demo_env ''notes'' None
        (demo_world ['''', ''1''] \<lparr> files := [''notes/review_log.json'' \<mapsto> ''{''] \<rparr>)
     = (Some JSONDecodeError,
        demo_world ['''', ''1''] \<lparr> files := [''notes/review_log.json'' \<mapsto> ''{''] \<rparr>)"
proof -
  let ?w = "demo_world ['''', ''1''] \<lparr> files := [''notes/review_log.json'' \<mapsto> ''{''] \<rparr>"
  have none: "files (demo_world ['''']) (log_file_path demo_env ''notes'' None) = None"
    by (simp add: demo_world_sel)
  have some: "files ?w (log_file_path demo_env ''notes'' None) = Some ''{''
              \<and> json_loads demo_env ''{'' = Inl JSONDecodeError"
    by (simp add: demo_log_file_path) (simp add: demo_env_def)
  from load_review_log [of "demo_world ['''']" demo_env "''notes''" None, THEN conjunct1,
      rule_format, OF none]
    load_review_log [of ?w demo_env "''notes''" None "''{''" JSONDecodeError demo_engine,
      THEN conjunct2, rule_format, OF some]
    some
  show ?thesis
    by (simp add: demo_log_file_path) (simp add: demo_env_def)
qed

lemma save_then_load:
  assumes "review_log_file self = log_file_path V np rf"
  shows "init V np rf (save_review_log V self w) =
     (case json_loads V (json_dumps V (review_log self)) of
        Inl e \<Rightarrow> Inl e
      | Inr j \<Rightarrow> Inr \<lparr> notes_path = expanduser V np,
                       review_log_file = log_file_path V np rf, review_log = j \<rparr>)"
  by (simp add: init_def save_review_log_eq assms [symmetric] split: sum.splits)

text \<open>
  Claim C4, as amended. \<^verbatim>\<open>save_review_log\<close> writes into the file of the log itself:
  stopped after \<open>k\<close> characters it leaves the first \<open>k\<close> characters of the new text in
  that file (a prefix of the new text, whatever the file held before) and every other file
  as it was; run to its end it leaves the whole new text there.
\<close>

theorem save_overwrites_in_place:
  "files (save_review_log_interrupted V self k w)
     = (files w)(review_log_file self \<mapsto> take k (json_dumps V (review_log self)))
   \<and> prefix (take k (json_dumps V (review_log self))) (json_dumps V (review_log self))
   \<and> files (save_review_log V self w)
     = (files w)(review_log_file self \<mapsto> json_dumps V (review_log self))"
  by (simp add: save_review_log_interrupted_def save_review_log_eq take_is_prefix)

text \<open>
  The claim as written fails. The file of the log holds the text \<^verbatim>\<open>{}\<close>, which
  \<^verbatim>\<open>json.load\<close> reads as the empty dict, and the log in memory is the empty dict, whose
  text is \<^verbatim>\<open>{}\<close> again. When the process is stopped after \<^verbatim>\<open>open(..., "w")\<close> and
  before the text has reached the file, the file is empty, \<^verbatim>\<open>json.load\<close> raises on it,
  and the next session cannot start.
\<close>

theorem save_interrupted_counterexample:
  "json_loads demo_env ''{}'' = Inr (JObj [])
   \<and> files (save_review_log_interrupted demo_env (demo_reviewer (JObj [])) 0
        (demo_world [] \<lparr> files := [''notes/review_log.json'' \<mapsto> ''{}''] \<rparr>))
       ''notes/review_log.json'' = Some ''''
   \<and> json_loads demo_env '''' = Inl JSONDecodeError
   \<and> init demo_env ''notes'' None
        (save_review_log_interrupted demo_env (demo_reviewer (JObj [])) 0
           (demo_world [] \<lparr> files := [''notes/review_log.json'' \<mapsto> ''{}''] \<rparr>))
       = Inl JSONDecodeError"
  by (simp add: save_review_log_interrupted_def demo_reviewer_def init_def
        demo_log_file_path)
     (simp add: demo_env_def)

end
